theory Spec2Isabelle
  imports Main "HOL-Library.Char_ord"
begin

section \<open>Data model\<close>

text \<open>
  A Go panic ends the call without a result. The resolver has two ways to panic: a
  slice expression whose bounds are out of range, and a method call or field read
  through a nil pointer. Indexing past the end of a slice is listed for the one index
  expression of \<open>comparePaths\<close>.
\<close>

datatype panic = SliceBoundsOutOfRange | IndexOutOfRange | NilPointerDereference

text \<open>
  \<open>errors.ValidationError\<close>, with the fields that \<open>FindPath\<close> sets; every other field
  of the Go struct keeps its zero value.
\<close>

record ValidationError =
  ValidationType :: string
  ValidationSubType :: string
  Message :: string
  Reason :: string
  SpecLine :: int
  SpecCol :: int

text \<open>
  \<open>v3.Parameter\<close> as the resolver reads it. \<open>Schema\<close> stands for
  \<open>params[p].Schema.Schema().Type\<close>: the declared type list, or \<open>None\<close> when the
  schema proxy (or the schema it builds) is nil, so that the read panics.
\<close>

record Parameter =
  Name :: string
  In :: string
  Schema :: "string list option"

record Operation =
  Parameters :: "Parameter list"

record PathItem =
  Parameters :: "Parameter list"
  Get :: "Operation option"
  Put :: "Operation option"
  Post :: "Operation option"
  Delete :: "Operation option"
  Options :: "Operation option"
  Head :: "Operation option"
  Patch :: "Operation option"
  Trace :: "Operation option"

text \<open>The two parts of \<open>http.Request\<close> that are read: \<open>Method\<close> and \<open>URL.Path\<close>.\<close>

record Request =
  Method :: string
  URL_Path :: string

text \<open>
  Modelled from the spec: the string constants of package \<open>helpers\<close>, which is not
  part of the sources. The spec names the location \<open>path\<close>, the primitive types
  \<open>string\<close>, \<open>number\<close> and \<open>integer\<close>, and the error tag \<open>path\<close>.
\<close>

definition helpers_Path :: string where
  "helpers_Path = ''path''"

definition helpers_String :: string where
  "helpers_String = ''string''"

definition helpers_Number :: string where
  "helpers_Number = ''number''"

definition helpers_Integer :: string where
  "helpers_Integer = ''integer''"

definition helpers_ParameterValidationPath :: string where
  "helpers_ParameterValidationPath = ''path''"

section \<open>Standard library: strings and path/filepath\<close>

text \<open>\<open>strings.Split(s, "/")\<close> for a one-byte separator: never the empty slice.\<close>

fun strings_Split :: "string \<Rightarrow> char \<Rightarrow> string list" where
  "strings_Split [] sep = [[]]"
| "strings_Split (c # cs) sep =
     (if c = sep then [] # strings_Split cs sep
      else (case strings_Split cs sep of
              [] \<Rightarrow> [[c]]
            | x # xs \<Rightarrow> (c # x) # xs))"

text \<open>\<open>strings.Join(elems, "/")\<close>.\<close>

fun strings_Join :: "string list \<Rightarrow> string \<Rightarrow> string" where
  "strings_Join [] sep = []"
| "strings_Join [x] sep = x"
| "strings_Join (x # y # ys) sep = x @ sep @ strings_Join (y # ys) sep"

text \<open>
  The slice expression \<open>s[lo:hi]\<close> on a string: it panics unless
  \<open>0 \<le> lo \<le> hi \<le> len(s)\<close>.
\<close>

definition substr :: "string \<Rightarrow> int \<Rightarrow> int \<Rightarrow> panic + string" where
  "substr s lo hi =
     (if 0 \<le> lo \<and> lo \<le> hi \<and> hi \<le> int (length s)
      then Inr (drop (nat lo) (take (nat hi) s))
      else Inl SliceBoundsOutOfRange)"

text \<open>
  \<open>filepath.Clean\<close> on a platform whose separator is \<open>/\<close>. The output buffer is
  \<open>out\<close>, \<open>dotdot\<close> is the length below which it may not be cut back, and the last
  argument is the unread rest of the path. \<open>backtrackTo\<close> is the inner loop that moves
  the write position back to the previous separator.
\<close>

fun backtrackTo :: "string \<Rightarrow> nat \<Rightarrow> nat \<Rightarrow> nat" where
  "backtrackTo out dotdot w =
     (if w > dotdot \<and> out ! w \<noteq> CHR ''/'' then backtrackTo out dotdot (w - 1) else w)"

declare backtrackTo.simps [simp del]

function cleanLoop :: "bool \<Rightarrow> string \<Rightarrow> nat \<Rightarrow> string \<Rightarrow> string" where
  "cleanLoop rooted out dotdot [] = out"
| "cleanLoop rooted out dotdot (c # cs) =
     (if c = CHR ''/'' then cleanLoop rooted out dotdot cs
      else if c = CHR ''.'' \<and> (cs = [] \<or> hd cs = CHR ''/'') then cleanLoop rooted out dotdot cs
      else if c = CHR ''.'' \<and> hd cs = CHR ''.'' \<and> (tl cs = [] \<or> hd (tl cs) = CHR ''/'') then
        (if length out > dotdot
         then cleanLoop rooted (take (backtrackTo out dotdot (length out - 1)) out) dotdot (tl cs)
         else if rooted then cleanLoop rooted out dotdot (tl cs)
         else cleanLoop rooted ((if out = [] then out else out @ ''/'') @ ''..'')
                (length ((if out = [] then out else out @ ''/'') @ ''..'')) (tl cs))
      else cleanLoop rooted
             (out @ (if (rooted \<and> length out \<noteq> 1) \<or> (\<not> rooted \<and> length out \<noteq> 0) then ''/'' else [])
                  @ c # takeWhile (\<lambda>x. x \<noteq> CHR ''/'') cs)
             dotdot (dropWhile (\<lambda>x. x \<noteq> CHR ''/'') cs))"
  by pat_completeness auto
termination
  by (relation "measure (\<lambda>(rooted, out, dotdot, rest). length rest)")
     (auto simp: le_imp_less_Suc length_dropWhile_le)

definition filepath_Clean :: "string \<Rightarrow> string" where
  "filepath_Clean path =
     (if path = [] then ''.''
      else if hd path = CHR ''/''
        then cleanLoop True ''/'' 1 (tl path)
        else (case cleanLoop False [] 0 path of [] \<Rightarrow> ''.'' | x # xs \<Rightarrow> x # xs))"

text \<open>
  \<open>filepath.Join\<close>: the elements from the first non-empty one on, joined with the
  separator and cleaned; the empty string when every element is empty.
\<close>

definition filepath_Join :: "string list \<Rightarrow> string" where
  "filepath_Join elem =
     (case dropWhile (\<lambda>e. e = []) elem of
        [] \<Rightarrow> []
      | e # es \<Rightarrow> filepath_Clean (strings_Join (e # es) ''/''))"

section \<open>Standard library: strconv.ParseFloat\<close>

text \<open>
  \<open>ParseFloat s\<close> holds when \<open>strconv.ParseFloat(s, 64)\<close> returns a nil error. The
  definitions follow the parser of the standard library: \<open>special\<close> recognises the
  infinities and NaN, \<open>readFloat\<close> scans a decimal or hexadecimal mantissa and exponent
  (with \<open>underscoreOK\<close> for digit separators) and leaves the unread rest, and a number
  that rounds beyond the largest float64 is a range error. The value of the mantissa is
  kept exactly; the library's cut of a mantissa after 800 decimal digits is not modelled.
\<close>

definition isDigit :: "char \<Rightarrow> bool" where
  "isDigit c = (CHR ''0'' \<le> c \<and> c \<le> CHR ''9'')"

definition isHexLetter :: "char \<Rightarrow> bool" where
  "isHexLetter c = ((CHR ''a'' \<le> c \<and> c \<le> CHR ''f'') \<or> (CHR ''A'' \<le> c \<and> c \<le> CHR ''F''))"

definition digitVal :: "char \<Rightarrow> nat" where
  "digitVal c = of_char c - of_char CHR ''0''"

definition hexLetterVal :: "char \<Rightarrow> nat" where
  "hexLetterVal c =
     (if CHR ''a'' \<le> c then of_char c - of_char CHR ''a'' + 10 else of_char c - of_char CHR ''A'' + 10)"

text \<open>A byte of \<open>A..Z\<close> moved to lower case, as in the comparisons that ignore case.\<close>

definition toLower :: "char \<Rightarrow> char" where
  "toLower c = (if CHR ''A'' \<le> c \<and> c \<le> CHR ''Z'' then char_of (of_char c + (32::nat)) else c)"

fun commonPrefixLenIgnoreCase :: "string \<Rightarrow> string \<Rightarrow> nat" where
  "commonPrefixLenIgnoreCase (c # cs) (p # ps) =
     (if toLower c = p then Suc (commonPrefixLenIgnoreCase cs ps) else 0)"
| "commonPrefixLenIgnoreCase s prefix = 0"

text \<open>\<open>special\<close>: the length of the prefix read as an infinity or NaN, after \<open>nsign\<close> sign bytes.\<close>

definition infinityLen :: "string \<Rightarrow> nat \<Rightarrow> nat option" where
  "infinityLen s nsign =
     (let n = commonPrefixLenIgnoreCase s ''infinity'';
          n' = (if 3 < n \<and> n < 8 then 3 else n)
      in if n' = 3 \<or> n' = 8 then Some (nsign + n') else None)"

definition special :: "string \<Rightarrow> nat option" where
  "special s =
     (case s of
        [] \<Rightarrow> None
      | c # cs \<Rightarrow>
          if c = CHR ''+'' \<or> c = CHR ''-'' then infinityLen cs 1
          else if c = CHR ''i'' \<or> c = CHR ''I'' then infinityLen s 0
          else if c = CHR ''n'' \<or> c = CHR ''N'' then
            (if commonPrefixLenIgnoreCase s ''nan'' = 3 then Some 3 else None)
          else None)"

text \<open>\<open>underscoreOK\<close>: an underscore only between digits, or between a base prefix and a digit.\<close>

fun underscoreLoop :: "bool \<Rightarrow> char \<Rightarrow> string \<Rightarrow> bool" where
  "underscoreLoop hex saw [] = (saw \<noteq> CHR ''_'')"
| "underscoreLoop hex saw (c # cs) =
     (if isDigit c \<or> (hex \<and> isHexLetter c) then underscoreLoop hex CHR ''0'' cs
      else if c = CHR ''_'' then (if saw \<noteq> CHR ''0'' then False else underscoreLoop hex CHR ''_'' cs)
      else if saw = CHR ''_'' then False
      else underscoreLoop hex CHR ''!'' cs)"

definition underscoreOK :: "string \<Rightarrow> bool" where
  "underscoreOK s =
     (let s1 = (case s of [] \<Rightarrow> [] | c # cs \<Rightarrow> if c = CHR ''-'' \<or> c = CHR ''+'' then cs else s)
      in case s1 of
           a # b # rest \<Rightarrow>
             if a = CHR ''0'' \<and> toLower b \<in> {CHR ''b'', CHR ''o'', CHR ''x''}
             then underscoreLoop (toLower b = CHR ''x'') CHR ''0'' rest
             else underscoreLoop False CHR ''^'' s1
         | _ \<Rightarrow> underscoreLoop False CHR ''^'' s1)"

text \<open>
  \<open>readFloat\<close>. \<open>nd\<close> counts the digits after the leading zeros and \<open>dp\<close> is the
  position of the decimal point among them. The result is \<open>(hex, m, k, rest)\<close>: the
  number read is \<open>m * 10 ^ k\<close>, or \<open>m * 2 ^ k\<close> for a hexadecimal mantissa.
\<close>

record floatScan =
  mantissa :: nat
  nd :: nat
  dp :: int
  sawdot :: bool
  sawdigits :: bool
  underscores :: bool

fun scanMantissa :: "nat \<Rightarrow> floatScan \<Rightarrow> string \<Rightarrow> floatScan \<times> string" where
  "scanMantissa base st [] = (st, [])"
| "scanMantissa base st (c # cs) =
     (if c = CHR ''_'' then scanMantissa base (st\<lparr>underscores := True\<rparr>) cs
      else if c = CHR ''.'' then
        (if sawdot st then (st, c # cs)
         else scanMantissa base (st\<lparr>sawdot := True, dp := int (nd st)\<rparr>) cs)
      else if isDigit c then
        (if c = CHR ''0'' \<and> nd st = 0
         then scanMantissa base (st\<lparr>sawdigits := True, dp := dp st - 1\<rparr>) cs
         else scanMantissa base
                (st\<lparr>sawdigits := True, nd := nd st + 1, mantissa := mantissa st * base + digitVal c\<rparr>) cs)
      else if base = 16 \<and> isHexLetter c then
        scanMantissa base
          (st\<lparr>sawdigits := True, nd := nd st + 1, mantissa := mantissa st * 16 + hexLetterVal c\<rparr>) cs
      else (st, c # cs))"

fun scanExponent :: "nat \<Rightarrow> bool \<Rightarrow> string \<Rightarrow> nat \<times> bool \<times> string" where
  "scanExponent e u [] = (e, u, [])"
| "scanExponent e u (c # cs) =
     (if c = CHR ''_'' then scanExponent e True cs
      else if isDigit c then scanExponent (if e < 10000 then e * 10 + digitVal c else e) u cs
      else (e, u, c # cs))"

definition readFloat :: "string \<Rightarrow> (bool \<times> nat \<times> int \<times> string) option" where
  "readFloat s =
     (if s = [] then None else
      let s1 = (if hd s = CHR ''+'' \<or> hd s = CHR ''-'' then tl s else s);
          hex = (2 < length s1 \<and> s1 ! 0 = CHR ''0'' \<and> toLower (s1 ! 1) = CHR ''x'');
          (st, s2) = scanMantissa (if hex then 16 else 10)
                       \<lparr>mantissa = 0, nd = 0, dp = 0, sawdot = False, sawdigits = False,
                        underscores = False\<rparr>
                       (if hex then drop 2 s1 else s1)
      in if \<not> sawdigits st then None else
         let dp0 = (if sawdot st then dp st else int (nd st));
             dp1 = (if hex then dp0 * 4 else dp0);
             ndMant = (if hex then int (nd st) * 4 else int (nd st))
         in if s2 \<noteq> [] \<and> toLower (hd s2) = (if hex then CHR ''p'' else CHR ''e'') then
              (let s3 = tl s2 in
               if s3 = [] then None else
               let esign = (if hd s3 = CHR ''-'' then - 1 else (1::int));
                   s4 = (if hd s3 = CHR ''+'' \<or> hd s3 = CHR ''-'' then tl s3 else s3)
               in if s4 = [] \<or> \<not> isDigit (hd s4) then None else
                  let (e, u, rest) = scanExponent 0 (underscores st) s4
                  in if u \<and> \<not> underscoreOK (take (length s - length rest) s) then None
                     else Some (hex, mantissa st, dp1 + int e * esign - ndMant, rest))
            else if hex then None
            else if underscores st \<and> \<not> underscoreOK (take (length s - length s2) s) then None
            else Some (hex, mantissa st, dp1 - ndMant, s2))"

text \<open>
  Rounding to nearest even overflows from the midpoint between the largest float64,
  \<open>(2 ^ 53 - 1) * 2 ^ 971\<close>, and \<open>2 ^ 1024\<close> on.
\<close>

definition float64Overflows :: "bool \<Rightarrow> nat \<Rightarrow> int \<Rightarrow> bool" where
  "float64Overflows hex m k =
     (let b = (if hex then 2 else (10::nat)); limit = (2 ^ 54 - 1) * (2::nat) ^ 970
      in m \<noteq> 0 \<and> (if 0 \<le> k then limit \<le> m * b ^ nat k else limit * b ^ nat (- k) \<le> m))"

definition ParseFloat :: "string \<Rightarrow> bool" where
  "ParseFloat s =
     (case special s of
        Some n \<Rightarrow> n = length s
      | None \<Rightarrow>
          (case readFloat s of
             None \<Rightarrow> False
           | Some (hex, m, k, rest) \<Rightarrow> rest = [] \<and> \<not> float64Overflows hex m k))"

section \<open>comparePaths\<close>

text \<open>
  \<open>strconv.ParseFloat(s, 64)\<close> belongs to the Go standard library. The resolver only
  asks whether it returns a nil error, so the functions below take that test as their
  first argument \<open>pf\<close>: \<open>pf s\<close> holds when \<open>s\<close> parses as a floating-point number.
\<close>

definition failToken :: string where
  "failToken = ''&&FAIL&&''"

text \<open>The \<open>switch schema.Type[t]\<close> of the innermost loop, for one declared type.\<close>

definition checkType :: "(string \<Rightarrow> bool) \<Rightarrow> string \<Rightarrow> string \<Rightarrow> string" where
  "checkType pf t s =
     (if t = helpers_String then (if pf s then failToken else s)
      else if t = helpers_Number \<or> t = helpers_Integer then (if pf s then s else failToken)
      else s)"

text \<open>\<open>for t := range schema.Type\<close>: the candidate value is threaded through the types.\<close>

fun checkTypes :: "(string \<Rightarrow> bool) \<Rightarrow> string list \<Rightarrow> string \<Rightarrow> string" where
  "checkTypes pf [] s = s"
| "checkTypes pf (t # ts) s = checkTypes pf ts (checkType pf t s)"

text \<open>
  \<open>for p := range params\<close>, for the template segment \<open>seg\<close> and the candidate value
  \<open>s\<close>. For every path-located parameter the segment is sliced as
  \<open>seg[1 : len(seg)-1]\<close>, whatever the segment is; the slice panics on a segment
  shorter than two bytes.
\<close>

fun checkParams ::
  "(string \<Rightarrow> bool) \<Rightarrow> string \<Rightarrow> Parameter list \<Rightarrow> string \<Rightarrow> panic + string" where
  "checkParams pf seg [] s = Inr s"
| "checkParams pf seg (p # ps) s =
     (if In p = helpers_Path then
        (case substr seg 1 (int (length seg) - 1) of
           Inl e \<Rightarrow> Inl e
         | Inr h \<Rightarrow>
             if Name p = h then
               (case Schema p of
                  None \<Rightarrow> Inl NilPointerDereference
                | Some types \<Rightarrow> checkParams pf seg ps (checkTypes pf types s))
             else checkParams pf seg ps s)
      else checkParams pf seg ps s)"

text \<open>
  \<open>for i, seg := range mapped\<close>: the list \<open>imploded\<close>. The second list is
  \<open>requested[i:]\<close>, so its head is \<open>requested[i]\<close>.
\<close>

fun implode ::
  "(string \<Rightarrow> bool) \<Rightarrow> Parameter list \<Rightarrow> string list \<Rightarrow> string list \<Rightarrow> panic + string list" where
  "implode pf params [] requested = Inr []"
| "implode pf params (seg # mapped) requested =
     (case (if CHR ''{'' \<in> set seg
            then (case requested of [] \<Rightarrow> Inl IndexOutOfRange | r # rs \<Rightarrow> Inr r)
            else Inr seg) of
        Inl e \<Rightarrow> Inl e
      | Inr s \<Rightarrow>
          (case checkParams pf seg params s of
             Inl e \<Rightarrow> Inl e
           | Inr s' \<Rightarrow>
               (case implode pf params mapped (tl requested) of
                  Inl e \<Rightarrow> Inl e
                | Inr imploded \<Rightarrow> Inr (s' # imploded))))"

text \<open>
  \<open>comparePaths\<close>. \<open>pathErrors\<close> is declared and never appended to, so the error list
  that is returned is always empty.
\<close>

definition comparePaths ::
  "(string \<Rightarrow> bool) \<Rightarrow> string list \<Rightarrow> string list \<Rightarrow> Parameter list \<Rightarrow> string
     \<Rightarrow> panic + (bool \<times> ValidationError list)" where
  "comparePaths pf mapped requested params path =
     (if length mapped \<noteq> length requested then Inr (False, [])
      else (case implode pf params mapped requested of
              Inl e \<Rightarrow> Inl e
            | Inr imploded \<Rightarrow>
                if filepath_Join imploded = filepath_Join requested
                then Inr (True, [])
                else Inr (False, [])))"

section \<open>FindPath\<close>

text \<open>
  \<open>segs := strings.Split(path, "/")\<close> followed by dropping a leading empty segment.
  \<open>strings.Split\<close> never returns the empty slice, so \<open>segs[0]\<close> is always in range.
\<close>

definition pathSegments :: "string \<Rightarrow> string list" where
  "pathSegments path =
     (case strings_Split path CHR ''/'' of
        [] \<Rightarrow> []
      | s # ss \<Rightarrow> if s = [] then ss else s # ss)"

text \<open>
  The body of one \<open>case\<close> of the method switch, for the operation of that method.
  \<open>keepErrs\<close> is false for POST, whose branch drops the errors of \<open>comparePaths\<close>.
  The result is \<open>Some (pItem, validationErrors, foundPath)\<close> when the loop breaks here.
\<close>

definition matchOperation ::
  "(string \<Rightarrow> bool) \<Rightarrow> Request \<Rightarrow> string \<Rightarrow> PathItem \<Rightarrow> bool \<Rightarrow> Operation option
     \<Rightarrow> panic + (PathItem \<times> ValidationError list \<times> string) option" where
  "matchOperation pf request path pathItem keepErrs operation =
     (case operation of
        None \<Rightarrow> Inr None
      | Some oper \<Rightarrow>
          if URL_Path request = path then Inr (Some (pathItem, [], path))
          else (case comparePaths pf (pathSegments path) (pathSegments (URL_Path request))
                       (PathItem.Parameters pathItem @ Operation.Parameters oper)
                       (URL_Path request) of
                  Inl e \<Rightarrow> Inl e
                | Inr (ok, errs) \<Rightarrow>
                    if ok then Inr (Some (pathItem, if keepErrs then errs else [], path))
                    else Inr None))"

text \<open>The loop body: \<open>switch request.Method\<close> with its eight cases.\<close>

definition visitPath ::
  "(string \<Rightarrow> bool) \<Rightarrow> Request \<Rightarrow> string \<Rightarrow> PathItem
     \<Rightarrow> panic + (PathItem \<times> ValidationError list \<times> string) option" where
  "visitPath pf request path pathItem =
     (if Method request = ''GET'' then matchOperation pf request path pathItem True (Get pathItem)
      else if Method request = ''POST'' then matchOperation pf request path pathItem False (Post pathItem)
      else if Method request = ''PUT'' then matchOperation pf request path pathItem True (Put pathItem)
      else if Method request = ''DELETE'' then matchOperation pf request path pathItem True (Delete pathItem)
      else if Method request = ''OPTIONS'' then matchOperation pf request path pathItem True (Options pathItem)
      else if Method request = ''HEAD'' then matchOperation pf request path pathItem True (Head pathItem)
      else if Method request = ''PATCH'' then matchOperation pf request path pathItem True (Patch pathItem)
      else if Method request = ''TRACE'' then matchOperation pf request path pathItem True (Trace pathItem)
      else Inr None)"

text \<open>
  \<open>for path, pathItem := range document.Paths.PathItems\<close>. The path items are a Go map,
  and Go leaves the order in which \<open>range\<close> visits a map unspecified: it may differ
  from one execution of the loop to the next. The contract is therefore given as the
  list of the map's entries in the order of this visit.
\<close>

fun findLoop ::
  "(string \<Rightarrow> bool) \<Rightarrow> Request \<Rightarrow> (string \<times> PathItem) list
     \<Rightarrow> panic + (PathItem \<times> ValidationError list \<times> string) option" where
  "findLoop pf request [] = Inr None"
| "findLoop pf request ((path, pathItem) # rest) =
     (case visitPath pf request path pathItem of
        Inl e \<Rightarrow> Inl e
      | Inr (Some found) \<Rightarrow> Inr (Some found)
      | Inr None \<Rightarrow> findLoop pf request rest)"

definition pathMissing :: "string \<Rightarrow> ValidationError" where
  "pathMissing p =
     \<lparr> ValidationType = helpers_ParameterValidationPath,
       ValidationSubType = ''missing'',
       Message = ''Path '' @ [CHR 0x27] @ p @ [CHR 0x27] @ '' not found'',
       Reason = ''The request contains a path of '' @ [CHR 0x27] @ p @ [CHR 0x27]
                @ '' however that path does not exist in the specification'',
       SpecLine = - 1,
       SpecCol = - 1 \<rparr>"

definition FindPath ::
  "(string \<Rightarrow> bool) \<Rightarrow> Request \<Rightarrow> (string \<times> PathItem) list
     \<Rightarrow> panic + (PathItem option \<times> ValidationError list \<times> string)" where
  "FindPath pf request pathItems =
     (case findLoop pf request pathItems of
        Inl e \<Rightarrow> Inl e
      | Inr None \<Rightarrow> Inr (None, [pathMissing (URL_Path request)], [])
      | Inr (Some (pItem, validationErrors, foundPath)) \<Rightarrow>
          Inr (Some pItem, validationErrors, foundPath))"

text \<open>
  The document as \<open>FindPath\<close> receives it. The range statement reads
  \<open>document.Paths.PathItems\<close>, and \<open>document.Paths\<close> is a pointer that is nil for a
  document without a paths section: the read then panics before any template is
  visited. \<open>Paths\<close> is \<open>None\<close> for that document, and otherwise the entries of the
  path map in the order of the visit. The request, its URL, the path items and the
  parameters are taken to be non-nil.
\<close>

record Document =
  Paths :: "(string \<times> PathItem) list option"

definition FindPath_document ::
  "(string \<Rightarrow> bool) \<Rightarrow> Request \<Rightarrow> Document
     \<Rightarrow> panic + (PathItem option \<times> ValidationError list \<times> string)" where
  "FindPath_document pf request document =
     (case Paths document of
        None \<Rightarrow> Inl NilPointerDereference
      | Some pathItems \<Rightarrow> FindPath pf request pathItems)"

text \<open>
  The operation that the method switch selects on a path item: the field of the
  request's method, and none for a method outside the eight cases.
\<close>

definition methodOperation :: "string \<Rightarrow> PathItem \<Rightarrow> Operation option" where
  "methodOperation m pathItem =
     (if m = ''GET'' then Get pathItem
      else if m = ''POST'' then Post pathItem
      else if m = ''PUT'' then Put pathItem
      else if m = ''DELETE'' then Delete pathItem
      else if m = ''OPTIONS'' then Options pathItem
      else if m = ''HEAD'' then Head pathItem
      else if m = ''PATCH'' then Patch pathItem
      else if m = ''TRACE'' then Trace pathItem
      else None)"

definition httpMethods :: "string list" where
  "httpMethods = [''GET'', ''POST'', ''PUT'', ''DELETE'', ''OPTIONS'', ''HEAD'', ''PATCH'', ''TRACE'']"

text \<open>
  A path segment that \<open>filepath.Clean\<close> copies as it stands: not empty, without a
  separator, and neither \<open>.\<close> nor \<open>..\<close>.
\<close>

definition plainSegment :: "string \<Rightarrow> bool" where
  "plainSegment s = (s \<noteq> [] \<and> CHR ''/'' \<notin> set s \<and> s \<noteq> ''.'' \<and> s \<noteq> ''..'')"

text \<open>
  A value conforms to a declared primitive type when it does not parse as a number for
  \<open>string\<close>, and parses as a number for \<open>number\<close> and \<open>integer\<close>.
\<close>

definition conforms :: "(string \<Rightarrow> bool) \<Rightarrow> string \<Rightarrow> string \<Rightarrow> bool" where
  "conforms pf ty v = (if ty = helpers_String then \<not> pf v else pf v)"

section \<open>Inputs of the examples\<close>

definition pathParameter :: "string \<Rightarrow> string \<Rightarrow> Parameter" where
  "pathParameter n ty = \<lparr> Name = n, In = ''path'', Schema = Some [ty] \<rparr>"

definition getOnly :: "Parameter list \<Rightarrow> PathItem" where
  "getOnly ps =
     \<lparr> PathItem.Parameters = [], Get = Some \<lparr> Operation.Parameters = ps \<rparr>, Put = None,
       Post = None, Delete = None, Options = None, Head = None, Patch = None, Trace = None \<rparr>"

definition getRequest :: "string \<Rightarrow> Request" where
  "getRequest p = \<lparr> Method = ''GET'', URL_Path = p \<rparr>"

section \<open>Basic facts\<close>

lemmas helpers_defs =
  helpers_Path_def helpers_String_def helpers_Number_def helpers_Integer_def
  helpers_ParameterValidationPath_def

lemmas resolver_defs =
  FindPath_def visitPath_def matchOperation_def comparePaths_def pathSegments_def
  filepath_Join_def filepath_Clean_def substr_def checkType_def failToken_def
  pathParameter_def getOnly_def getRequest_def methodOperation_def helpers_defs

lemmas ParseFloat_defs =
  ParseFloat_def special_def infinityLen_def readFloat_def isDigit_def isHexLetter_def
  digitVal_def hexLetterVal_def toLower_def underscoreOK_def float64Overflows_def

lemma strings_Split_nonempty: "strings_Split s sep \<noteq> []"
  by (induction s) (auto split: list.splits)

lemma comparePaths_errors:
  "comparePaths pf mapped requested params path = Inr (ok, errs) \<Longrightarrow> errs = []"
  by (auto simp: comparePaths_def split: if_splits sum.splits)

lemma matchOperation_keepErrs:
  "matchOperation pf request path pathItem keepErrs operation =
     matchOperation pf request path pathItem True operation"
proof (cases operation)
  case None
  then show ?thesis by (simp add: matchOperation_def)
next
  case (Some oper)
  show ?thesis
  proof (cases "comparePaths pf (pathSegments path) (pathSegments (URL_Path request))
                  (PathItem.Parameters pathItem @ Operation.Parameters oper) (URL_Path request)")
    case (Inl e)
    with Some show ?thesis by (simp add: matchOperation_def)
  next
    case (Inr r)
    obtain ok errs where r: "r = (ok, errs)" by (cases r)
    with Inr have "errs = []" by (auto dest: comparePaths_errors)
    with Some Inr r show ?thesis by (simp add: matchOperation_def)
  qed
qed

lemma visitPath_methodOperation:
  "visitPath pf request path pathItem =
     matchOperation pf request path pathItem True (methodOperation (Method request) pathItem)"
proof -
  have none: "matchOperation pf request path pathItem True None = Inr None"
    by (simp add: matchOperation_def)
  show ?thesis
    unfolding visitPath_def methodOperation_def
    by (simp add: matchOperation_keepErrs [where keepErrs = False] none)
qed

lemma matchOperation_Some:
  assumes "matchOperation pf request path pathItem True operation = Inr (Some (found, errs, fp))"
  shows "found = pathItem \<and> fp = path \<and> errs = [] \<and> operation \<noteq> None"
proof (cases operation)
  case None
  with assms show ?thesis by (simp add: matchOperation_def)
next
  case (Some oper)
  show ?thesis
  proof (cases "URL_Path request = path")
    case True
    with assms Some show ?thesis by (simp add: matchOperation_def)
  next
    case False
    show ?thesis
    proof (cases "comparePaths pf (pathSegments path) (pathSegments (URL_Path request))
                    (PathItem.Parameters pathItem @ Operation.Parameters oper) (URL_Path request)")
      case (Inl e)
      with assms Some False show ?thesis by (simp add: matchOperation_def)
    next
      case (Inr r)
      obtain ok es where r: "r = (ok, es)" by (cases r)
      with Inr have "es = []" by (auto dest: comparePaths_errors)
      with assms Some False Inr r show ?thesis
        by (simp add: matchOperation_def split: if_splits)
    qed
  qed
qed

lemma visitPath_Some:
  assumes "visitPath pf request path pathItem = Inr (Some (found, errs, fp))"
  shows "found = pathItem \<and> fp = path \<and> errs = []
           \<and> methodOperation (Method request) pathItem \<noteq> None"
  using assms matchOperation_Some [of pf request path pathItem
      "methodOperation (Method request) pathItem" found errs fp]
  by (simp add: visitPath_methodOperation)

lemma visitPath_no_operation:
  "methodOperation (Method request) pathItem = None \<Longrightarrow>
     visitPath pf request path pathItem = Inr None"
  by (simp add: visitPath_methodOperation matchOperation_def)

lemma visitPath_literal:
  "methodOperation (Method request) pathItem = Some oper \<Longrightarrow> URL_Path request = path \<Longrightarrow>
     visitPath pf request path pathItem = Inr (Some (pathItem, [], path))"
  by (simp add: visitPath_methodOperation matchOperation_def)

lemma findLoop_rejected:
  "\<forall>(path, pathItem) \<in> set xs. visitPath pf request path pathItem = Inr None \<Longrightarrow>
     findLoop pf request (xs @ rest) = findLoop pf request rest"
  by (induction xs) auto

lemma findLoop_Some:
  "findLoop pf request xs = Inr (Some (found, errs, fp)) \<Longrightarrow>
     (fp, found) \<in> set xs \<and> visitPath pf request fp found = Inr (Some (found, errs, fp))"
proof (induction xs)
  case Nil
  then show ?case by simp
next
  case (Cons x xs)
  obtain path pathItem where x: "x = (path, pathItem)" by (cases x)
  show ?case
  proof (cases "visitPath pf request path pathItem")
    case (Inl e)
    with Cons.prems x show ?thesis by simp
  next
    case (Inr r)
    show ?thesis
    proof (cases r)
      case None
      with Inr Cons x show ?thesis by simp
    next
      case (Some t)
      with Inr Cons.prems x have t: "t = (found, errs, fp)" by simp
      with Inr Some visitPath_Some [of pf request path pathItem found errs fp]
      have "found = pathItem \<and> fp = path" by simp
      with Inr Some t x show ?thesis by simp
    qed
  qed
qed

lemma findLoop_single:
  assumes "\<forall>e \<in> set xs. e \<noteq> e0 \<longrightarrow> visitPath pf request (fst e) (snd e) = Inr None"
  shows "findLoop pf request xs =
           (if e0 \<in> set xs then visitPath pf request (fst e0) (snd e0) else Inr None)"
  using assms
proof (induction xs)
  case Nil
  then show ?case by simp
next
  case (Cons x xs)
  obtain path pathItem where x: "x = (path, pathItem)" by (cases x)
  from Cons have IH: "findLoop pf request xs =
      (if e0 \<in> set xs then visitPath pf request (fst e0) (snd e0) else Inr None)"
    by simp
  show ?case
  proof (cases "x = e0")
    case True
    with x IH show ?thesis
      by (cases "visitPath pf request path pathItem")
         (auto split: option.splits)
  next
    case False
    with Cons.prems x have "visitPath pf request path pathItem = Inr None" by auto
    with False x IH show ?thesis by auto
  qed
qed

section \<open>Claims\<close>

text \<open>
  C6. When the template and the request differ in their number of segments,
  \<open>comparePaths\<close> returns at once: no match and no errors, for every parameter list
  and every number parser, so neither is consulted. The request \<open>/a/b\<close> matches
  neither the template \<open>/a/b/c\<close> nor the template \<open>/a\<close>.
\<close>

theorem comparePaths_segment_count:
  "length mapped \<noteq> length requested \<Longrightarrow>
     comparePaths pf mapped requested params path = Inr (False, [])"
  by (simp add: comparePaths_def)

theorem comparePaths_segment_count_witness:
  "length (pathSegments ''/a/b/c'') \<noteq> length (pathSegments ''/a/b'')
   \<and> comparePaths ParseFloat (pathSegments ''/a/b/c'') (pathSegments ''/a/b'')
         [pathParameter ''id'' ''integer''] ''/a/b'' = Inr (False, [])
   \<and> length (pathSegments ''/a'') \<noteq> length (pathSegments ''/a/b'')
   \<and> comparePaths ParseFloat (pathSegments ''/a'') (pathSegments ''/a/b'')
         [pathParameter ''id'' ''integer''] ''/a/b'' = Inr (False, [])"
proof -
  have l1: "length (pathSegments ''/a/b/c'') \<noteq> length (pathSegments ''/a/b'')"
    by (simp add: pathSegments_def)
  have l2: "length (pathSegments ''/a'') \<noteq> length (pathSegments ''/a/b'')"
    by (simp add: pathSegments_def)
  show ?thesis
    using l1 l2
      comparePaths_segment_count [OF l1, of ParseFloat "[pathParameter ''id'' ''integer'']" "''/a/b''"]
      comparePaths_segment_count [OF l2, of ParseFloat "[pathParameter ''id'' ''integer'']" "''/a/b''"]
    by simp
qed

text \<open>
  C4 does not hold of the code. A request whose path matches no template of the
  contract does not always get the path-missing result: the requests \<open>GET /zz/5\<close>
  and \<open>GET /a/abc\<close> match no template of a contract whose only template is
  \<open>/a/{id}\<close> with the integer path parameter \<open>id\<close>, and both end in the panic of
  the slice \<open>seg[1 : len(seg)-1]\<close> on the segment \<open>a\<close>, before any segment is
  compared. The same happens when another template of the contract rejects the
  request and this one is visited too. A document without a paths section matches no
  request either, and the read of \<open>document.Paths.PathItems\<close> panics on it.
\<close>

theorem FindPath_unmatched_panics:
  "FindPath pf (getRequest ''/zz/5'')
     [(''/a/{id}'', getOnly [pathParameter ''id'' ''integer''])] = Inl SliceBoundsOutOfRange
   \<and> FindPath pf (getRequest ''/a/abc'')
     [(''/a/{id}'', getOnly [pathParameter ''id'' ''integer''])] = Inl SliceBoundsOutOfRange
   \<and> FindPath pf (getRequest ''/zz/5'')
     [(''/b/{id}/c'', getOnly []), (''/a/{id}'', getOnly [pathParameter ''id'' ''integer''])]
       = Inl SliceBoundsOutOfRange
   \<and> FindPath_document pf (getRequest ''/zz/5'') \<lparr> Paths = None \<rparr> = Inl NilPointerDereference
   \<and> FindPath_document pf (getRequest ''/zz/5'')
       \<lparr> Paths = Some [(''/a/{id}'', getOnly [pathParameter ''id'' ''integer''])] \<rparr>
       = Inl SliceBoundsOutOfRange"
  by (simp add: resolver_defs FindPath_document_def)

text \<open>
  What the code does return on the runs in which the loop body rejects every template
  without a panic (the template has no operation for the method, or its path differs
  from the request's and \<open>comparePaths\<close> returns no match): a null path item, the
  empty template string and exactly one error, of type \<open>path\<close> and subtype
  \<open>missing\<close>, with the requested path quoted in the message and in the reason, and
  line and column \<open>-1\<close>.
\<close>

theorem FindPath_missing:
  assumes "\<forall>(path, pathItem) \<in> set pathItems. visitPath pf request path pathItem = Inr None"
  shows "FindPath pf request pathItems =
           Inr (None,
                [\<lparr> ValidationType = ''path'',
                   ValidationSubType = ''missing'',
                   Message = ''Path '' @ [CHR 0x27] @ URL_Path request @ [CHR 0x27] @ '' not found'',
                   Reason = ''The request contains a path of '' @ [CHR 0x27] @ URL_Path request
                     @ [CHR 0x27] @ '' however that path does not exist in the specification'',
                   SpecLine = - 1,
                   SpecCol = - 1 \<rparr>],
                [])"
proof -
  from assms findLoop_rejected [of pathItems pf request "[]"]
  have "findLoop pf request pathItems = Inr None" by simp
  then show ?thesis
    by (simp add: FindPath_def pathMissing_def helpers_defs)
qed

theorem FindPath_missing_witness:
  "FindPath ParseFloat (getRequest ''/items/abc'')
     [(''/items/{id}'', getOnly [pathParameter ''id'' ''integer''])] =
   Inr (None,
        [\<lparr> ValidationType = ''path'',
           ValidationSubType = ''missing'',
           Message = ''Path '' @ [CHR 0x27] @ ''/items/abc'' @ [CHR 0x27] @ '' not found'',
           Reason = ''The request contains a path of '' @ [CHR 0x27] @ ''/items/abc''
             @ [CHR 0x27] @ '' however that path does not exist in the specification'',
           SpecLine = - 1,
           SpecCol = - 1 \<rparr>],
        [])"
proof -
  have "visitPath ParseFloat (getRequest ''/items/abc'') ''/items/{id}''
          (getOnly [pathParameter ''id'' ''integer'']) = Inr None"
    by (simp add: resolver_defs ParseFloat_defs)
  then have "\<forall>(path, pathItem) \<in> set [(''/items/{id}'', getOnly [pathParameter ''id'' ''integer''])].
      visitPath ParseFloat (getRequest ''/items/abc'') path pathItem = Inr None"
    by simp
  from FindPath_missing [OF this] show ?thesis
    by (simp add: getRequest_def)
qed

text \<open>
  C7. \<open>FindPath\<close> returns a path item only for a template of the contract that
  defines an operation for the request's method. A template without an operation for
  that method leaves the result as it is without that template, also when its path is
  the request's path. A request whose method is none of GET, POST, PUT, DELETE,
  OPTIONS, HEAD, PATCH and TRACE gets the path-missing result.
\<close>

theorem FindPath_operation_for_method:
  "(FindPath pf request pathItems = Inr (Some pItem, errs, foundPath) \<longrightarrow>
      (foundPath, pItem) \<in> set pathItems \<and> methodOperation (Method request) pItem \<noteq> None)
   \<and> (methodOperation (Method request) pathItem = None \<longrightarrow>
      FindPath pf request (before @ (path, pathItem) # rest) = FindPath pf request (before @ rest))
   \<and> (Method request \<notin> set httpMethods \<longrightarrow>
      FindPath pf request pathItems = Inr (None, [pathMissing (URL_Path request)], []))"
proof (intro conjI impI)
  assume "FindPath pf request pathItems = Inr (Some pItem, errs, foundPath)"
  then have "findLoop pf request pathItems = Inr (Some (pItem, errs, foundPath))"
    by (auto simp: FindPath_def split: sum.splits option.splits)
  from findLoop_Some [OF this]
  have "(foundPath, pItem) \<in> set pathItems"
    and "visitPath pf request foundPath pItem = Inr (Some (pItem, errs, foundPath))"
    by simp_all
  with visitPath_Some [of pf request foundPath pItem pItem errs foundPath]
  show "(foundPath, pItem) \<in> set pathItems" and "methodOperation (Method request) pItem \<noteq> None"
    by simp_all
next
  assume "methodOperation (Method request) pathItem = None"
  then have skip: "visitPath pf request path pathItem = Inr None"
    by (rule visitPath_no_operation)
  have "findLoop pf request (before @ (path, pathItem) # rest) = findLoop pf request (before @ rest)"
    by (induction before) (auto simp: skip split: sum.splits option.splits)
  then show "FindPath pf request (before @ (path, pathItem) # rest) = FindPath pf request (before @ rest)"
    by (simp add: FindPath_def)
next
  assume "Method request \<notin> set httpMethods"
  then have "\<And>pathItem. methodOperation (Method request) pathItem = None"
    by (simp add: httpMethods_def methodOperation_def)
  then have "\<forall>(path, pathItem) \<in> set pathItems. visitPath pf request path pathItem = Inr None"
    by (auto intro: visitPath_no_operation)
  with findLoop_rejected [of pathItems pf request "[]"]
  have "findLoop pf request pathItems = Inr None" by simp
  then show "FindPath pf request pathItems = Inr (None, [pathMissing (URL_Path request)], [])"
    by (simp add: FindPath_def)
qed

theorem FindPath_operation_for_method_witness:
  "FindPath ParseFloat (getRequest ''/items/5'') [(''/items/{id}'', getOnly [pathParameter ''id'' ''integer''])]
     = Inr (Some (getOnly [pathParameter ''id'' ''integer'']), [], ''/items/{id}'')
   \<and> methodOperation ''GET'' (getOnly [pathParameter ''id'' ''integer'']) \<noteq> None
   \<and> methodOperation ''POST'' (getOnly []) = None
   \<and> FindPath ParseFloat \<lparr>Method = ''POST'', URL_Path = ''/pets''\<rparr> [(''/pets'', getOnly [])]
       = FindPath ParseFloat \<lparr>Method = ''POST'', URL_Path = ''/pets''\<rparr> []
   \<and> ''CONNECT'' \<notin> set httpMethods
   \<and> FindPath ParseFloat \<lparr>Method = ''CONNECT'', URL_Path = ''/pets''\<rparr> [(''/pets'', getOnly [])]
       = Inr (None, [pathMissing ''/pets''], [])"
proof -
  have a: "FindPath ParseFloat (getRequest ''/items/5'')
      [(''/items/{id}'', getOnly [pathParameter ''id'' ''integer''])]
     = Inr (Some (getOnly [pathParameter ''id'' ''integer'']), [], ''/items/{id}'')"
    by (simp add: resolver_defs ParseFloat_defs backtrackTo.simps)
  have b: "methodOperation (Method \<lparr>Method = ''POST'', URL_Path = ''/pets''\<rparr>) (getOnly []) = None"
    by (simp add: methodOperation_def getOnly_def)
  have c: "Method \<lparr>Method = ''CONNECT'', URL_Path = ''/pets''\<rparr> \<notin> set httpMethods"
    by (simp add: httpMethods_def)
  from a FindPath_operation_for_method
    [of ParseFloat "getRequest ''/items/5''"
        "[(''/items/{id}'', getOnly [pathParameter ''id'' ''integer''])]"
        "getOnly [pathParameter ''id'' ''integer'']" "[]" "''/items/{id}''"]
  have 1: "methodOperation ''GET'' (getOnly [pathParameter ''id'' ''integer'']) \<noteq> None"
    by (simp add: getRequest_def)
  from b FindPath_operation_for_method
    [of ParseFloat "\<lparr>Method = ''POST'', URL_Path = ''/pets''\<rparr>" _ _ _ _ "getOnly []" "[]" "''/pets''" "[]"]
  have 2: "FindPath ParseFloat \<lparr>Method = ''POST'', URL_Path = ''/pets''\<rparr> [(''/pets'', getOnly [])]
       = FindPath ParseFloat \<lparr>Method = ''POST'', URL_Path = ''/pets''\<rparr> []"
    by simp
  from c FindPath_operation_for_method
    [of ParseFloat "\<lparr>Method = ''CONNECT'', URL_Path = ''/pets''\<rparr>" "[(''/pets'', getOnly [])]"]
  have 3: "FindPath ParseFloat \<lparr>Method = ''CONNECT'', URL_Path = ''/pets''\<rparr> [(''/pets'', getOnly [])]
       = Inr (None, [pathMissing ''/pets''], [])"
    by simp
  from a 1 2 3 b c show ?thesis by simp
qed

text \<open>
  C9 as stated fails: the path map may hold the empty string as a key, and a request
  for the empty path then gets that path item together with the empty template string.
\<close>

theorem FindPath_empty_template_counterexample:
  "FindPath ParseFloat (getRequest []) [([], getOnly [])] = Inr (Some (getOnly []), [], [])"
  by (simp add: resolver_defs)

text \<open>
  C9, amended. When \<open>FindPath\<close> returns a path item, the template string returned
  with it is a key of the path map and the item is the entry of that key; the string is
  not empty when no key of the path map is empty.
\<close>

theorem FindPath_found_is_key:
  assumes "FindPath pf request pathItems = Inr (Some pItem, errs, foundPath)"
  shows "(foundPath, pItem) \<in> set pathItems \<and> ([] \<notin> fst ` set pathItems \<longrightarrow> foundPath \<noteq> [])"
proof -
  from assms have "findLoop pf request pathItems = Inr (Some (pItem, errs, foundPath))"
    by (auto simp: FindPath_def split: sum.splits option.splits)
  from findLoop_Some [OF this] have "(foundPath, pItem) \<in> set pathItems" by simp
  then show ?thesis by force
qed

theorem FindPath_found_is_key_witness:
  "FindPath ParseFloat (getRequest ''/items/5'') [(''/items/{id}'', getOnly [pathParameter ''id'' ''integer''])]
     = Inr (Some (getOnly [pathParameter ''id'' ''integer'']), [], ''/items/{id}'')
   \<and> (''/items/{id}'', getOnly [pathParameter ''id'' ''integer''])
       \<in> set [(''/items/{id}'', getOnly [pathParameter ''id'' ''integer''])]
   \<and> [] \<notin> fst ` set [(''/items/{id}'', getOnly [pathParameter ''id'' ''integer''])]
   \<and> ''/items/{id}'' \<noteq> []"
proof -
  have a: "FindPath ParseFloat (getRequest ''/items/5'')
      [(''/items/{id}'', getOnly [pathParameter ''id'' ''integer''])]
     = Inr (Some (getOnly [pathParameter ''id'' ''integer'']), [], ''/items/{id}'')"
    by (simp add: resolver_defs ParseFloat_defs backtrackTo.simps)
  from FindPath_found_is_key [OF a] a show ?thesis by simp
qed

text \<open>
  C5 as stated fails: a template visited before the byte-identical one wins when it
  matches structurally, and the template string returned is then not the request path.
\<close>

theorem FindPath_literal_shadowed_counterexample:
  "FindPath ParseFloat (getRequest ''/pets/mine'')
     [(''/pets/{petId}'', getOnly [pathParameter ''petId'' ''string'']), (''/pets/mine'', getOnly [])]
   = Inr (Some (getOnly [pathParameter ''petId'' ''string'']), [], ''/pets/{petId}'')"
  by (simp add: resolver_defs ParseFloat_defs backtrackTo.simps)

text \<open>
  C5, amended. When the request path is byte-identical to a template that has an
  operation for the request's method, and every template visited before it is rejected,
  \<open>FindPath\<close> returns that path item, no errors and the request path as the template.
  \<open>comparePaths\<close> is not evaluated for that template: the result is the same for
  every parameter list, also one on which \<open>comparePaths\<close> panics.
\<close>

theorem FindPath_literal:
  assumes "\<forall>(p, it) \<in> set before. visitPath pf request p it = Inr None"
    and "methodOperation (Method request) pathItem = Some oper"
    and "URL_Path request = path"
  shows "FindPath pf request (before @ (path, pathItem) # rest) = Inr (Some pathItem, [], path)"
proof -
  from assms(1) have "findLoop pf request (before @ (path, pathItem) # rest)
      = findLoop pf request ((path, pathItem) # rest)"
    by (rule findLoop_rejected)
  also from assms(2,3) have "\<dots> = Inr (Some (pathItem, [], path))"
    by (simp add: visitPath_literal)
  finally show ?thesis by (simp add: FindPath_def)
qed

theorem FindPath_literal_witness:
  "comparePaths ParseFloat (pathSegments ''/a/{id}'') (pathSegments ''/a/{id}'')
      [pathParameter ''id'' ''integer''] ''/a/{id}'' = Inl SliceBoundsOutOfRange
   \<and> FindPath ParseFloat (getRequest ''/a/{id}'')
     [(''/items/{id}'', getOnly [pathParameter ''id'' ''integer'']),
      (''/a/{id}'', getOnly [pathParameter ''id'' ''integer'']),
      (''/{x}/{y}'', getOnly [])]
   = Inr (Some (getOnly [pathParameter ''id'' ''integer'']), [], ''/a/{id}'')"
proof -
  have "visitPath ParseFloat (getRequest ''/a/{id}'') ''/items/{id}''
          (getOnly [pathParameter ''id'' ''integer'']) = Inr None"
    by (simp add: resolver_defs ParseFloat_defs backtrackTo.simps)
  then have 1: "\<forall>(p, it) \<in> set [(''/items/{id}'', getOnly [pathParameter ''id'' ''integer''])].
      visitPath ParseFloat (getRequest ''/a/{id}'') p it = Inr None"
    by simp
  have 2: "methodOperation (Method (getRequest ''/a/{id}'')) (getOnly [pathParameter ''id'' ''integer''])
      = Some \<lparr>Operation.Parameters = [pathParameter ''id'' ''integer'']\<rparr>"
    by (simp add: methodOperation_def getRequest_def getOnly_def)
  have 3: "URL_Path (getRequest ''/a/{id}'') = ''/a/{id}''"
    by (simp add: getRequest_def)
  have 4: "comparePaths ParseFloat (pathSegments ''/a/{id}'') (pathSegments ''/a/{id}'')
      [pathParameter ''id'' ''integer''] ''/a/{id}'' = Inl SliceBoundsOutOfRange"
    by (simp add: resolver_defs)
  from FindPath_literal [OF 1 2 3, of "[(''/{x}/{y}'', getOnly [])]"] 4 show ?thesis by simp
qed

text \<open>
  C8 as stated fails: the path items are a Go map, whose visiting order is not fixed.
  Two visits of the same two entries in different orders give different results when
  both templates accept the request.
\<close>

theorem FindPath_order_counterexample:
  "set [(''/pets/mine'', getOnly []), (''/pets/{petId}'', getOnly [pathParameter ''petId'' ''string''])]
     = set [(''/pets/{petId}'', getOnly [pathParameter ''petId'' ''string'']), (''/pets/mine'', getOnly [])]
   \<and> FindPath ParseFloat (getRequest ''/pets/mine'')
        [(''/pets/mine'', getOnly []), (''/pets/{petId}'', getOnly [pathParameter ''petId'' ''string''])]
     \<noteq> FindPath ParseFloat (getRequest ''/pets/mine'')
        [(''/pets/{petId}'', getOnly [pathParameter ''petId'' ''string'']), (''/pets/mine'', getOnly [])]"
  by (simp add: resolver_defs ParseFloat_defs backtrackTo.simps insert_commute)

text \<open>
  C8, amended. Two resolutions of the same request against the same entries of the
  path map give identical results, whatever the two visiting orders are, when at most
  one entry is not rejected by the loop body.
\<close>

theorem FindPath_order_independent:
  assumes "set ys = set xs"
    and "\<forall>e \<in> set xs. e \<noteq> e0 \<longrightarrow> visitPath pf request (fst e) (snd e) = Inr None"
  shows "FindPath pf request ys = FindPath pf request xs"
proof -
  from assms have "\<forall>e \<in> set ys. e \<noteq> e0 \<longrightarrow> visitPath pf request (fst e) (snd e) = Inr None"
    by simp
  from findLoop_single [OF this] findLoop_single [OF assms(2)] assms(1)
  have "findLoop pf request ys = findLoop pf request xs" by simp
  then show ?thesis by (simp add: FindPath_def)
qed

theorem FindPath_order_independent_witness:
  "FindPath ParseFloat (getRequest ''/pets/7'')
     [(''/pets/mine'', getOnly []), (''/pets/{petId}'', getOnly [pathParameter ''petId'' ''integer''])]
   = FindPath ParseFloat (getRequest ''/pets/7'')
     [(''/pets/{petId}'', getOnly [pathParameter ''petId'' ''integer'']), (''/pets/mine'', getOnly [])]
   \<and> FindPath ParseFloat (getRequest ''/pets/7'')
     [(''/pets/mine'', getOnly []), (''/pets/{petId}'', getOnly [pathParameter ''petId'' ''integer''])]
   = Inr (Some (getOnly [pathParameter ''petId'' ''integer'']), [], ''/pets/{petId}'')"
proof -
  let ?a = "(''/pets/mine'', getOnly [])"
  let ?b = "(''/pets/{petId}'', getOnly [pathParameter ''petId'' ''integer''])"
  have s: "set [?b, ?a] = set [?a, ?b]" by auto
  have "visitPath ParseFloat (getRequest ''/pets/7'') ''/pets/mine'' (getOnly []) = Inr None"
    by (simp add: resolver_defs ParseFloat_defs backtrackTo.simps)
  then have r: "\<forall>e \<in> set [?a, ?b]. e \<noteq> ?b \<longrightarrow>
      visitPath ParseFloat (getRequest ''/pets/7'') (fst e) (snd e) = Inr None"
    by simp
  have v: "FindPath ParseFloat (getRequest ''/pets/7'') [?a, ?b]
      = Inr (Some (getOnly [pathParameter ''petId'' ''integer'']), [], ''/pets/{petId}'')"
    by (simp add: resolver_defs ParseFloat_defs backtrackTo.simps)
  from FindPath_order_independent [OF s r] v show ?thesis by simp
qed

text \<open>
  C1 does not hold of the code. Once the parameter list holds a path-located parameter,
  the parameter loop slices every template segment as \<open>seg[1 : len(seg)-1]\<close>, and
  the slice panics on a segment shorter than two bytes. The request \<open>GET /a/5\<close>
  against the template \<open>/a/{id}\<close> with the path parameter \<open>id\<close> ends in that panic
  instead of a result, whatever the number parser answers.
\<close>

theorem FindPath_panics_on_short_segment:
  "FindPath pf (getRequest ''/a/5'') [(''/a/{id}'', getOnly [pathParameter ''id'' ''integer''])]
     = Inl SliceBoundsOutOfRange"
  by (simp add: resolver_defs)

text \<open>
  C2 does not hold of the code. The parameter loop runs for every template segment and
  looks parameters up under the segment without its first and last byte. The literal
  segment \<open>items\<close> is therefore checked against the parameter \<open>tem\<close>: its type
  \<open>integer\<close> turns the literal into the fail token, and the template \<open>/items/{tem}\<close>
  rejects the request \<open>/items/5\<close>, which it accepts without the parameter.
\<close>

theorem comparePaths_checks_literal_segment:
  "comparePaths ParseFloat (pathSegments ''/items/{tem}'') (pathSegments ''/items/5'')
      [pathParameter ''tem'' ''integer''] ''/items/5'' = Inr (False, [])
   \<and> comparePaths ParseFloat (pathSegments ''/items/{tem}'') (pathSegments ''/items/5'')
      [] ''/items/5'' = Inr (True, [])
   \<and> checkParams ParseFloat ''items'' [pathParameter ''tem'' ''integer''] ''items'' = Inr failToken
   \<and> checkParams ParseFloat ''{tem}'' [pathParameter ''tem'' ''integer''] ''5'' = Inr ''5''"
  by (simp add: resolver_defs ParseFloat_defs backtrackTo.simps)

text \<open>
  C10. \<open>comparePaths\<close> decides the match by comparing \<open>filepath.Join\<close> of the
  rebuilt segments with \<open>filepath.Join\<close> of the requested ones. The join drops
  \<open>.\<close> elements and cancels an element against a following \<open>..\<close>, so the template
  \<open>/a/../c\<close> matches the request \<open>/x/../c\<close> although their first segments differ.
\<close>

theorem comparePaths_joins_cleaned_paths:
  "(length mapped = length requested \<longrightarrow> implode pf params mapped requested = Inr imploded \<longrightarrow>
      comparePaths pf mapped requested params path
        = Inr (filepath_Join imploded = filepath_Join requested, []))
   \<and> filepath_Join [''a'', ''.'', ''c''] = ''a/c''
   \<and> filepath_Join [''a'', ''..'', ''c''] = ''c''
   \<and> pathSegments ''/a/../c'' = [''a'', ''..'', ''c'']
   \<and> pathSegments ''/x/../c'' = [''x'', ''..'', ''c'']
   \<and> comparePaths pf (pathSegments ''/a/../c'') (pathSegments ''/x/../c'') [] ''/x/../c''
       = Inr (True, [])"
  by (simp add: resolver_defs backtrackTo.simps)

theorem comparePaths_joins_cleaned_paths_witness:
  "length [''a'', ''.'', ''c''] = length [''a'', ''c'', ''.'']
   \<and> implode ParseFloat [] [''a'', ''.'', ''c''] [''a'', ''c'', ''.''] = Inr [''a'', ''.'', ''c'']
   \<and> comparePaths ParseFloat [''a'', ''.'', ''c''] [''a'', ''c'', ''.''] [] ''/a/c/.''
       = Inr (True, [])"
proof -
  have 1: "length [''a'', ''.'', ''c''] = length [''a'', ''c'', ''.'']" by simp
  have 2: "implode ParseFloat [] [''a'', ''.'', ''c''] [''a'', ''c'', ''.''] = Inr [''a'', ''.'', ''c'']"
    by simp
  from comparePaths_joins_cleaned_paths [of "[''a'', ''.'', ''c'']" "[''a'', ''c'', ''.'']"
      ParseFloat "[]" "[''a'', ''.'', ''c'']" "''/a/c/.''"] 1 2
  show ?thesis by (simp add: resolver_defs backtrackTo.simps)
qed

section \<open>Placeholder segments and declared types\<close>

lemma checkType_failToken: "checkType pf t failToken = failToken"
  by (simp add: checkType_def)

lemma substr_interior:
  "substr seg 1 (int (length seg) - 1) =
     (if 2 \<le> length seg then Inr (butlast (tl seg)) else Inl SliceBoundsOutOfRange)"
proof (cases "2 \<le> length seg")
  case True
  then have "nat (int (length seg) - 1) = length seg - 1" by simp
  moreover have "drop 1 (take (length seg - 1) seg) = butlast (tl seg)"
    by (simp add: butlast_conv_take drop_take tl_def [symmetric] drop_Suc)
  ultimately show ?thesis using True by (simp add: substr_def)
next
  case False
  then show ?thesis by (auto simp: substr_def)
qed

lemma checkParams_failToken:
  assumes "2 \<le> length seg"
    and "\<forall>p \<in> set ps. In p = helpers_Path \<and> Name p = butlast (tl seg) \<longrightarrow> Schema p = Some [ty]"
  shows "checkParams pf seg ps failToken = Inr failToken"
  using assms(2)
  by (induction ps) (auto simp: substr_interior assms(1) checkType_failToken)

lemma checkParams_conforming:
  assumes "2 \<le> length seg"
    and "\<forall>p \<in> set ps. In p = helpers_Path \<and> Name p = butlast (tl seg) \<longrightarrow> Schema p = Some [ty]"
    and "ty \<in> {helpers_String, helpers_Number, helpers_Integer}"
    and "conforms pf ty v"
  shows "checkParams pf seg ps v = Inr v"
proof -
  from assms(3,4) have "checkType pf ty v = v"
    by (auto simp: checkType_def conforms_def helpers_defs)
  with assms(2) show ?thesis
    by (induction ps) (auto simp: substr_interior assms(1))
qed

lemma checkParams_nonconforming:
  assumes "2 \<le> length seg"
    and "\<forall>p \<in> set ps. In p = helpers_Path \<and> Name p = butlast (tl seg) \<longrightarrow> Schema p = Some [ty]"
    and "\<exists>p \<in> set ps. In p = helpers_Path \<and> Name p = butlast (tl seg)"
    and "ty \<in> {helpers_String, helpers_Number, helpers_Integer}"
    and "\<not> conforms pf ty v"
  shows "checkParams pf seg ps v = Inr failToken"
proof -
  from assms(4,5) have ct: "checkType pf ty v = failToken"
    by (auto simp: checkType_def conforms_def helpers_defs)
  from assms(2,3) show ?thesis
  proof (induction ps)
    case Nil
    then show ?case by simp
  next
    case (Cons p ps)
    show ?case
    proof (cases "In p = helpers_Path \<and> Name p = butlast (tl seg)")
      case True
      with Cons.prems have "Schema p = Some [ty]" by simp
      moreover from Cons.prems(1)
      have "\<forall>q \<in> set ps. In q = helpers_Path \<and> Name q = butlast (tl seg) \<longrightarrow> Schema q = Some [ty]"
        by simp
      from checkParams_failToken [OF assms(1) this]
      have "checkParams pf seg ps failToken = Inr failToken" .
      ultimately show ?thesis using True
        by (simp add: substr_interior assms(1) ct)
    next
      case False
      with Cons have "checkParams pf seg ps v = Inr failToken" by auto
      with False show ?thesis
        by (auto simp: substr_interior assms(1))
    qed
  qed
qed

lemma implode_append:
  "length m1 = length r1 \<Longrightarrow>
     implode pf params (m1 @ m2) (r1 @ r2) =
       (case implode pf params m1 r1 of
          Inl e \<Rightarrow> Inl e
        | Inr xs \<Rightarrow> (case implode pf params m2 r2 of Inl e \<Rightarrow> Inl e | Inr ys \<Rightarrow> Inr (xs @ ys)))"
proof (induction m1 arbitrary: r1)
  case Nil
  then show ?case by (simp split: sum.splits)
next
  case (Cons seg m1)
  then obtain r r1' where r1: "r1 = r # r1'" and len: "length m1 = length r1'"
    by (cases r1) auto
  from Cons.IH [OF len] show ?case
    by (simp add: r1 split: sum.splits)
qed

lemma strings_Join_Cons:
  "xs \<noteq> [] \<Longrightarrow> strings_Join (x # xs) sep = x @ sep @ strings_Join xs sep"
  by (cases xs) simp_all

lemma strings_Join_differs:
  "strings_Join (r1 @ [v] @ r2) sep = strings_Join (r1 @ [w] @ r2) sep \<Longrightarrow> v = w"
proof (induction r1)
  case Nil
  then show ?case by (cases r2) simp_all
next
  case (Cons a r1)
  then show ?case by (simp add: strings_Join_Cons)
qed

lemma takeWhile_separator:
  "c \<notin> set cs \<Longrightarrow> takeWhile (\<lambda>x. x \<noteq> c) (cs @ c # rest) = cs"
  by (induction cs) auto

lemma dropWhile_separator:
  "c \<notin> set cs \<Longrightarrow> dropWhile (\<lambda>x. x \<noteq> c) (cs @ c # rest) = c # rest"
  by (induction cs) auto

lemma takeWhile_no_separator:
  "c \<notin> set cs \<Longrightarrow> takeWhile (\<lambda>x. x \<noteq> c) cs = cs"
  by (induction cs) auto

lemma dropWhile_no_separator:
  "c \<notin> set cs \<Longrightarrow> dropWhile (\<lambda>x. x \<noteq> c) cs = []"
  by (induction cs) auto

lemma cleanLoop_plain:
  assumes "plainSegment x" and "rest = [] \<or> hd rest = CHR ''/''"
  shows "cleanLoop False out dd (x @ rest)
           = cleanLoop False (out @ (if out = [] then [] else ''/'') @ x) dd rest"
proof -
  from assms(1) obtain c cs where x: "x = c # cs" and c: "c \<noteq> CHR ''/''"
    and cs: "CHR ''/'' \<notin> set cs" and dot: "c # cs \<noteq> ''.''" and dotdot: "c # cs \<noteq> ''..''"
    by (cases x) (auto simp: plainSegment_def)
  from cs assms(2) have tw: "takeWhile (\<lambda>x. x \<noteq> CHR ''/'') (cs @ rest) = cs"
    by (cases rest) (auto simp: takeWhile_separator takeWhile_no_separator)
  from cs assms(2) have dw: "dropWhile (\<lambda>x. x \<noteq> CHR ''/'') (cs @ rest) = rest"
    by (cases rest) (auto simp: dropWhile_separator dropWhile_no_separator)
  have n1: "\<not> (c = CHR ''.'' \<and> (cs @ rest = [] \<or> hd (cs @ rest) = CHR ''/''))"
    using dot cs by (cases cs) auto
  have n2: "\<not> (c = CHR ''.'' \<and> hd (cs @ rest) = CHR ''.''
              \<and> (tl (cs @ rest) = [] \<or> hd (tl (cs @ rest)) = CHR ''/''))"
  proof (cases cs)
    case Nil
    with dot show ?thesis by auto
  next
    case (Cons d ds)
    with dotdot cs show ?thesis by (cases ds) auto
  qed
  have "cleanLoop False out dd (c # cs @ rest) =
      cleanLoop False
        (out @ (if (False \<and> length out \<noteq> 1) \<or> (\<not> False \<and> length out \<noteq> 0) then ''/'' else [])
             @ c # takeWhile (\<lambda>x. x \<noteq> CHR ''/'') (cs @ rest))
        dd (dropWhile (\<lambda>x. x \<noteq> CHR ''/'') (cs @ rest))"
    by (subst cleanLoop.simps(2)) (simp only: c n1 n2 if_False)
  then show ?thesis
    by (simp add: x tw dw)
qed

lemma cleanLoop_join:
  "\<forall>s \<in> set (x # xs). plainSegment s \<Longrightarrow>
     cleanLoop False out dd (strings_Join (x # xs) ''/'')
       = out @ (if out = [] then [] else ''/'') @ strings_Join (x # xs) ''/''"
proof (induction xs arbitrary: x out)
  case Nil
  then have "plainSegment x" by simp
  from cleanLoop_plain [OF this, of "[]" out dd] show ?case by simp
next
  case (Cons y ys)
  then have x: "plainSegment x" and rest: "\<forall>s \<in> set (y # ys). plainSegment s" by simp_all
  have "cleanLoop False out dd (strings_Join (x # y # ys) ''/'')
      = cleanLoop False out dd (x @ CHR ''/'' # strings_Join (y # ys) ''/'')"
    by simp
  also from cleanLoop_plain [OF x, of "CHR ''/'' # strings_Join (y # ys) ''/''" out dd]
  have "\<dots> = cleanLoop False (out @ (if out = [] then [] else ''/'') @ x) dd
                 (CHR ''/'' # strings_Join (y # ys) ''/'')"
    by simp
  also have "\<dots> = cleanLoop False (out @ (if out = [] then [] else ''/'') @ x) dd
                 (strings_Join (y # ys) ''/'')"
    by simp
  also from Cons.IH [OF rest] x
  have "\<dots> = (out @ (if out = [] then [] else ''/'') @ x) @ ''/'' @ strings_Join (y # ys) ''/''"
    by (simp add: plainSegment_def)
  finally show ?case by simp
qed

lemma filepath_Join_plain:
  assumes "segs \<noteq> []" and "\<forall>s \<in> set segs. plainSegment s"
  shows "filepath_Join segs = strings_Join segs ''/''"
proof -
  from assms obtain x xs where segs: "segs = x # xs" by (cases segs) auto
  with assms(2) have x: "x \<noteq> []" "hd x \<noteq> CHR ''/''"
    by (cases x; auto simp: plainSegment_def)+
  have j: "strings_Join (x # xs) ''/'' \<noteq> []" "hd (strings_Join (x # xs) ''/'') \<noteq> CHR ''/''"
    using x by (cases xs; simp)+
  from assms(2) segs cleanLoop_join [of x xs "[]" 0]
  have "cleanLoop False [] 0 (strings_Join (x # xs) ''/'') = strings_Join (x # xs) ''/''"
    by simp
  with j x show ?thesis
    by (simp add: segs filepath_Join_def filepath_Clean_def split: list.splits)
qed

lemma checkParams_untouched:
  assumes "2 \<le> length seg"
    and "\<forall>p \<in> set ps. In p = helpers_Path \<longrightarrow> Name p \<noteq> butlast (tl seg)"
  shows "checkParams pf seg ps s = Inr s"
  using assms(2)
  by (induction ps) (auto simp: substr_interior assms(1))

text \<open>
  Literal segments of at least two bytes that do not enclose the name of a path-located
  parameter pass the loop of \<open>comparePaths\<close> as they are.
\<close>

lemma implode_literals:
  assumes "\<forall>seg \<in> set m. CHR ''{'' \<notin> set seg \<and> 2 \<le> length seg
             \<and> (\<forall>p \<in> set params. In p = helpers_Path \<longrightarrow> Name p \<noteq> butlast (tl seg))"
  shows "implode pf params m m = Inr m"
  using assms
  by (induction m) (auto simp: checkParams_untouched)

text \<open>
  C3 as stated fails. A value that does not conform is replaced by the fail token, and
  the match is decided by comparing joined paths: the request segment \<open>&&FAIL&&\<close> is
  no number and still matches an integer-typed placeholder, and the join cancels the
  fail token against a following \<open>..\<close> segment.
\<close>

theorem comparePaths_sentinel_counterexample:
  "\<not> ParseFloat ''&&FAIL&&''
   \<and> comparePaths ParseFloat (pathSegments ''/items/{id}'') (pathSegments ''/items/&&FAIL&&'')
        [pathParameter ''id'' ''integer''] ''/items/&&FAIL&&'' = Inr (True, [])
   \<and> \<not> ParseFloat ''abc''
   \<and> comparePaths ParseFloat (pathSegments ''/{id}/{x}'') (pathSegments ''/abc/..'')
        [pathParameter ''id'' ''integer''] ''/abc/..'' = Inr (True, [])"
  by (simp add: resolver_defs ParseFloat_defs backtrackTo.simps)

text \<open>
  C3, amended. Take a template with a placeholder segment \<open>{name}\<close> and a request with
  the value \<open>v\<close> in its place, where the segments before and after the placeholder
  pass the loop of \<open>comparePaths\<close> as the request has them, and every path-located
  parameter called \<open>name\<close> (there is one) declares the single type \<open>ty\<close>, one of
  \<open>string\<close>, \<open>number\<close> and \<open>integer\<close>. If \<open>v\<close> conforms to \<open>ty\<close>, the request
  matches the template. If \<open>v\<close> does not conform, is not the fail token, and every
  request segment is non-empty and neither \<open>.\<close> nor \<open>..\<close>, the request does not
  match.
\<close>

theorem comparePaths_placeholder_type:
  assumes "length m1 = length r1" and "length m2 = length r2"
    and "implode pf params m1 r1 = Inr r1" and "implode pf params m2 r2 = Inr r2"
    and "\<forall>p \<in> set params. In p = helpers_Path \<and> Name p = name \<longrightarrow> Schema p = Some [ty]"
    and "\<exists>p \<in> set params. In p = helpers_Path \<and> Name p = name"
    and "ty \<in> {helpers_String, helpers_Number, helpers_Integer}"
  shows "(conforms pf ty v \<longrightarrow>
            comparePaths pf (m1 @ [''{'' @ name @ ''}''] @ m2) (r1 @ [v] @ r2) params path
              = Inr (True, []))
       \<and> (\<not> conforms pf ty v \<and> v \<noteq> failToken \<and> (\<forall>s \<in> set (r1 @ [v] @ r2). plainSegment s) \<longrightarrow>
            comparePaths pf (m1 @ [''{'' @ name @ ''}''] @ m2) (r1 @ [v] @ r2) params path
              = Inr (False, []))"
proof -
  let ?seg = "CHR ''{'' # name @ ''}''"
  have len: "2 \<le> length ?seg" by simp
  have inner: "butlast (tl ?seg) = name" by simp
  have decl: "\<forall>p \<in> set params. In p = helpers_Path \<and> Name p = butlast (tl ?seg) \<longrightarrow> Schema p = Some [ty]"
    using assms(5) by simp
  have ex: "\<exists>p \<in> set params. In p = helpers_Path \<and> Name p = butlast (tl ?seg)"
    using assms(6) by simp
  have imp: "implode pf params (m1 @ ?seg # m2) (r1 @ v # r2) = Inr (r1 @ s # r2)"
    if "checkParams pf ?seg params v = Inr s" for s
    using that assms(3,4) by (simp add: implode_append [OF assms(1)])
  have lens: "length (m1 @ ?seg # m2) = length (r1 @ v # r2)"
    using assms(1,2) by simp
  show ?thesis
  proof (intro conjI impI)
    assume "conforms pf ty v"
    from checkParams_conforming [OF len decl assms(7) this]
    have "checkParams pf ?seg params v = Inr v" .
    from imp [OF this] lens
    show "comparePaths pf (m1 @ [''{'' @ name @ ''}''] @ m2) (r1 @ [v] @ r2) params path = Inr (True, [])"
      by (simp add: comparePaths_def)
  next
    assume a: "\<not> conforms pf ty v \<and> v \<noteq> failToken \<and> (\<forall>s \<in> set (r1 @ [v] @ r2). plainSegment s)"
    then have nc: "\<not> conforms pf ty v" and v: "v \<noteq> failToken"
      and plain: "\<forall>s \<in> set (r1 @ [v] @ r2). plainSegment s"
      by simp_all
    from checkParams_nonconforming [OF len decl ex assms(7) nc]
    have "checkParams pf ?seg params v = Inr failToken" .
    from imp [OF this]
    have im: "implode pf params (m1 @ ?seg # m2) (r1 @ v # r2) = Inr (r1 @ failToken # r2)" .
    have "plainSegment failToken"
      by (simp add: plainSegment_def failToken_def)
    with plain have plain': "\<forall>s \<in> set (r1 @ [failToken] @ r2). plainSegment s"
      by auto
    have j1: "filepath_Join (r1 @ [failToken] @ r2) = strings_Join (r1 @ [failToken] @ r2) ''/''"
      by (rule filepath_Join_plain [OF _ plain']) simp
    have j2: "filepath_Join (r1 @ [v] @ r2) = strings_Join (r1 @ [v] @ r2) ''/''"
      by (rule filepath_Join_plain [OF _ plain]) simp
    from v strings_Join_differs [of r1 failToken r2 "''/''" v]
    have "filepath_Join (r1 @ [failToken] @ r2) \<noteq> filepath_Join (r1 @ [v] @ r2)"
      unfolding j1 j2 by auto
    with im lens
    show "comparePaths pf (m1 @ [''{'' @ name @ ''}''] @ m2) (r1 @ [v] @ r2) params path = Inr (False, [])"
      by (simp add: comparePaths_def)
  qed
qed

theorem comparePaths_placeholder_type_witness:
  "ParseFloat ''42'' \<and> \<not> ParseFloat ''abc''
   \<and> comparePaths ParseFloat (pathSegments ''/items/{id}'') (pathSegments ''/items/42'')
        [pathParameter ''id'' ''integer''] ''/items/42'' = Inr (True, [])
   \<and> comparePaths ParseFloat (pathSegments ''/items/{id}'') (pathSegments ''/items/abc'')
        [pathParameter ''id'' ''integer''] ''/items/abc'' = Inr (False, [])
   \<and> comparePaths ParseFloat (pathSegments ''/items/{id}'') (pathSegments ''/items/abc'')
        [pathParameter ''id'' ''string''] ''/items/abc'' = Inr (True, [])
   \<and> comparePaths ParseFloat (pathSegments ''/items/{id}'') (pathSegments ''/items/42'')
        [pathParameter ''id'' ''string''] ''/items/42'' = Inr (False, [])"
proof -
  have n: "ParseFloat ''42''" and s: "\<not> ParseFloat ''abc''"
    by (simp_all add: ParseFloat_defs)
  have segs: "pathSegments ''/items/{id}'' = [''items''] @ [''{'' @ ''id'' @ ''}''] @ []"
    "pathSegments ''/items/42'' = [''items''] @ [''42''] @ []"
    "pathSegments ''/items/abc'' = [''items''] @ [''abc''] @ []"
    by (simp_all add: pathSegments_def)
  have l: "length [''items''] = length [''items'']" "length ([]::string list) = length ([]::string list)"
    by simp_all
  have i: "implode ParseFloat [pathParameter ''id'' ty] [''items''] [''items''] = Inr [''items'']"
    "implode ParseFloat [pathParameter ''id'' ty] [] [] = Inr []" for ty
    by (simp_all add: resolver_defs)
  have d: "\<forall>p \<in> set [pathParameter ''id'' ty]. In p = helpers_Path \<and> Name p = ''id'' \<longrightarrow> Schema p = Some [ty]"
    "\<exists>p \<in> set [pathParameter ''id'' ty]. In p = helpers_Path \<and> Name p = ''id''" for ty
    by (simp_all add: resolver_defs)
  have t: "''integer'' \<in> {helpers_String, helpers_Number, helpers_Integer}"
    "''string'' \<in> {helpers_String, helpers_Number, helpers_Integer}"
    by (simp_all add: helpers_defs)
  have c: "conforms ParseFloat ''integer'' ''42''" "\<not> conforms ParseFloat ''integer'' ''abc''"
    "conforms ParseFloat ''string'' ''abc''" "\<not> conforms ParseFloat ''string'' ''42''"
    using n s by (simp_all add: conforms_def helpers_defs)
  have p: "''abc'' \<noteq> failToken \<and> (\<forall>s \<in> set ([''items''] @ [''abc''] @ []). plainSegment s)"
    "''42'' \<noteq> failToken \<and> (\<forall>s \<in> set ([''items''] @ [''42''] @ []). plainSegment s)"
    by (simp_all add: failToken_def plainSegment_def)
  note int = comparePaths_placeholder_type [OF l i(1) i(2) d(1) d(2) t(1)]
  note str = comparePaths_placeholder_type [OF l i(1) i(2) d(1) d(2) t(2)]
  from int [where v = "''42''" and path = "''/items/42''"]
    int [where v = "''abc''" and path = "''/items/abc''"]
    str [where v = "''abc''" and path = "''/items/abc''"]
    str [where v = "''42''" and path = "''/items/42''"] c p n s
  show ?thesis
    unfolding segs by simp
qed

end
